theory Spec2Isabelle
  imports Main "HOL-Library.Word"
begin

section \<open>Strings and numbers of the host language\<close>

text \<open>
  A JavaScript string is a sequence of 16-bit code units; \<open>length\<close> counts code units
  and regular expressions without the \<open>u\<close> flag match code unit by code unit. The ASCII
  literals of the source are written with \<open>lit\<close>.
\<close>

type_synonym jschar = "16 word"
type_synonym jsstring = "jschar list"

definition lit :: "string \<Rightarrow> jsstring" where
  "lit s = map (\<lambda>c. of_nat (of_char c)) s"

definition isLower :: "jschar \<Rightarrow> bool" where
  "isLower c = (0x61 \<le> c \<and> c \<le> 0x7A)"

definition isUpper :: "jschar \<Rightarrow> bool" where
  "isUpper c = (0x41 \<le> c \<and> c \<le> 0x5A)"

definition isDigit :: "jschar \<Rightarrow> bool" where
  "isDigit c = (0x30 \<le> c \<and> c \<le> 0x39)"

text \<open>
  The class \<open>\s\<close> of a regular expression and the characters removed by \<open>trim()\<close> are
  the same set: WhiteSpace and LineTerminator of the language definition.
\<close>

definition isSpace :: "jschar \<Rightarrow> bool" where
  "isSpace c = (c = 0x9 \<or> c = 0xA \<or> c = 0xB \<or> c = 0xC \<or> c = 0xD \<or> c = 0x20 \<or> c = 0xA0
     \<or> c = 0x1680 \<or> (0x2000 \<le> c \<and> c \<le> 0x200A) \<or> c = 0x2028 \<or> c = 0x2029
     \<or> c = 0x202F \<or> c = 0x205F \<or> c = 0x3000 \<or> c = 0xFEFF)"

definition isLineTerminator :: "jschar \<Rightarrow> bool" where
  "isLineTerminator c = (c = 0xA \<or> c = 0xD \<or> c = 0x2028 \<or> c = 0x2029)"

definition trim :: "jsstring \<Rightarrow> jsstring" where
  "trim s = rev (dropWhile isSpace (rev (dropWhile isSpace s)))"

text \<open>
  A number is an integer or \<open>NaN\<close> here: the only numbers of the validator are calendar
  years and their difference. Arithmetic with \<open>NaN\<close> gives \<open>NaN\<close>; every comparison with
  \<open>NaN\<close> is false.
\<close>

datatype jsnum = NaN | Num int

fun jsSub :: "jsnum \<Rightarrow> jsnum \<Rightarrow> jsnum" where
  "jsSub (Num a) (Num b) = Num (a - b)"
| "jsSub _ _ = NaN"

fun jsLt :: "jsnum \<Rightarrow> jsnum \<Rightarrow> bool" where
  "jsLt (Num a) (Num b) = (a < b)"
| "jsLt _ _ = False"

fun jsGt :: "jsnum \<Rightarrow> jsnum \<Rightarrow> bool" where
  "jsGt (Num a) (Num b) = (a > b)"
| "jsGt _ _ = False"

section \<open>Regular expressions\<close>

text \<open>
  The constructs the source's patterns use: a character class, the anchors \<open>^\<close> and \<open>$\<close>
  (no multiline flag), sequence, \<open>?\<close>, \<open>*\<close>, \<open>+\<close> and the lookahead \<open>(?=r)\<close>. A matcher
  state is the rest of the input and whether it is the whole input; \<open>rmatch\<close> lists the
  states a pattern can end in, greedy alternatives first. An iteration of \<open>*\<close> that
  consumes nothing is not repeated.
\<close>

datatype rx = Cls "jschar \<Rightarrow> bool" | Bol | Eol | Seq rx rx | Opt rx | Star rx | Look rx

abbreviation Plus :: "rx \<Rightarrow> rx" where
  "Plus r \<equiv> Seq r (Star r)"

abbreviation Chr :: "jschar \<Rightarrow> rx" where
  "Chr a \<equiv> Cls (\<lambda>c. c = a)"

abbreviation Dot :: rx where
  "Dot \<equiv> Cls (\<lambda>c. \<not> isLineTerminator c)"

fun rmatch :: "rx \<Rightarrow> bool \<times> jsstring \<Rightarrow> (bool \<times> jsstring) list" where
  "rmatch (Cls p) (b, s) = (case s of [] \<Rightarrow> [] | c # t \<Rightarrow> if p c then [(False, t)] else [])"
| "rmatch Bol (b, s) = (if b then [(b, s)] else [])"
| "rmatch Eol (b, s) = (if s = [] then [(b, s)] else [])"
| "rmatch (Seq r1 r2) st = concat (map (rmatch r2) (rmatch r1 st))"
| "rmatch (Opt r) st = rmatch r st @ [st]"
| "rmatch (Star r) st =
     concat (map (\<lambda>st'. if length (snd st') < length (snd st) then rmatch (Star r) st' else [])
                 (rmatch r st)) @ [st]"
| "rmatch (Look r) st = (if rmatch r st = [] then [] else [st])"

text \<open>\<open>r.test(s)\<close>: a match starting at some offset of \<open>s\<close>, the end of \<open>s\<close> included.\<close>

fun search :: "rx \<Rightarrow> bool \<Rightarrow> jsstring \<Rightarrow> bool" where
  "search r b [] = (rmatch r (b, []) \<noteq> [])"
| "search r b (c # t) = (rmatch r (b, c # t) \<noteq> [] \<or> search r False t)"

definition test :: "rx \<Rightarrow> jsstring \<Rightarrow> bool" where
  "test r s = search r True s"

text \<open>The patterns of \<open>validateField\<close>, in the order of the source.\<close>

definition nameRx :: rx where  \<comment> \<open>\<^verbatim>\<open>/^[a-zA-Z\s]+$/\<close>\<close>
  "nameRx = Seq Bol (Seq (Plus (Cls (\<lambda>c. isLower c \<or> isUpper c \<or> isSpace c))) Eol)"

definition emailRx :: rx where  \<comment> \<open>\<^verbatim>\<open>/^[^\s@]+@[^\s@]+\.[^\s@]+$/\<close>\<close>
  "emailRx = Seq Bol (Seq (Plus (Cls (\<lambda>c. \<not> (isSpace c \<or> c = 0x40))))
     (Seq (Chr 0x40) (Seq (Plus (Cls (\<lambda>c. \<not> (isSpace c \<or> c = 0x40))))
     (Seq (Chr 0x2E) (Seq (Plus (Cls (\<lambda>c. \<not> (isSpace c \<or> c = 0x40)))) Eol)))))"

definition lowerRx :: rx where  \<comment> \<open>\<^verbatim>\<open>/(?=.*[a-z])/\<close>\<close>
  "lowerRx = Look (Seq (Star Dot) (Cls isLower))"

definition upperRx :: rx where  \<comment> \<open>\<^verbatim>\<open>/(?=.*[A-Z])/\<close>\<close>
  "upperRx = Look (Seq (Star Dot) (Cls isUpper))"

definition digitRx :: rx where  \<comment> \<open>\<^verbatim>\<open>/(?=.*\d)/\<close>\<close>
  "digitRx = Look (Seq (Star Dot) (Cls isDigit))"

definition isSpecial :: "jschar \<Rightarrow> bool" where  \<comment> \<open>\<^verbatim>\<open>[@$!%*?&]\<close>\<close>
  "isSpecial c = (c = 0x40 \<or> c = 0x24 \<or> c = 0x21 \<or> c = 0x25 \<or> c = 0x2A \<or> c = 0x3F \<or> c = 0x26)"

definition specialRx :: rx where  \<comment> \<open>\<^verbatim>\<open>/(?=.*[@$!%*?&])/\<close>\<close>
  "specialRx = Look (Seq (Star Dot) (Cls isSpecial))"

text \<open>
  In \<^verbatim>\<open>[\d\s-()]\<close> the hyphen follows a class escape, so it stands for itself: the
  class is the digits, the white space, \<open>-\<close>, \<open>(\<close> and \<open>)\<close>.
\<close>

definition phoneRx :: rx where  \<comment> \<open>\<^verbatim>\<open>/^\+?[\d\s-()]+$/\<close>\<close>
  "phoneRx = Seq Bol (Seq (Opt (Chr 0x2B))
     (Seq (Plus (Cls (\<lambda>c. isDigit c \<or> isSpace c \<or> c = 0x2D \<or> c = 0x28 \<or> c = 0x29))) Eol))"

section \<open>The field validator\<close>

record FormData =
  fullName :: jsstring
  email :: jsstring
  password :: jsstring
  confirmPassword :: jsstring
  phone :: jsstring
  dateOfBirth :: jsstring

datatype field = FullName | Email | Password | ConfirmPassword | Phone | DateOfBirth

text \<open>
  The clock and the date parser of the host are the environment of the program:
  \<open>getFullYear v\<close> is \<open>new Date(v).getFullYear()\<close>, which is \<open>NaN\<close> when \<open>v\<close> does not
  parse as a date; \<open>todayYear\<close> is \<open>new Date().getFullYear()\<close>; \<open>nowMs\<close> is \<open>Date.now()\<close>
  and \<open>nowISO\<close> is \<open>new Date().toISOString()\<close>.
\<close>

record env =
  getFullYear :: "jsstring \<Rightarrow> jsnum"
  todayYear :: int
  nowMs :: nat
  nowISO :: jsstring

text \<open>
  \<open>validateField\<close> returns the error message, or \<open>None\<close> for \<open>undefined\<close>. It reads the
  password of the current form data for the \<open>confirmPassword\<close> case. The \<open>default\<close> branch
  of the source's \<open>switch\<close> is not reachable for a key of \<open>FormData\<close>.
\<close>

fun validateField :: "env \<Rightarrow> FormData \<Rightarrow> field \<Rightarrow> jsstring \<Rightarrow> string option" where
  "validateField e formData FullName v =
     (if trim v = [] then Some ''Full name is required''
      else if length (trim v) < 2 then Some ''Name must be at least 2 characters''
      else if \<not> test nameRx v then Some ''Name can only contain letters''
      else None)"
| "validateField e formData Email v =
     (if trim v = [] then Some ''Email is required''
      else if \<not> test emailRx v then Some ''Invalid email format''
      else None)"
| "validateField e formData Password v =
     (if v = [] then Some ''Password is required''
      else if length v < 8 then Some ''Password must be at least 8 characters''
      else if \<not> test lowerRx v then Some ''Password must contain a lowercase letter''
      else if \<not> test upperRx v then Some ''Password must contain an uppercase letter''
      else if \<not> test digitRx v then Some ''Password must contain a number''
      else if \<not> test specialRx v then Some ''Password must contain a special character''
      else None)"
| "validateField e formData ConfirmPassword v =
     (if v = [] then Some ''Please confirm your password''
      else if v \<noteq> password formData then Some ''Passwords do not match''
      else None)"
| "validateField e formData Phone v =
     (if trim v = [] then Some ''Phone number is required''
      else if \<not> test phoneRx v then Some ''Invalid phone number format''
      else if length (filter isDigit v) < 10 then Some ''Phone number must be at least 10 digits''
      else None)"
| "validateField e formData DateOfBirth v =
     (if v = [] then Some ''Date of birth is required''
      else let age = jsSub (Num (todayYear e)) (getFullYear e v) in
        if jsLt age (Num 13) then Some ''You must be at least 13 years old''
        else if jsGt age (Num 120) then Some ''Please enter a valid date''
        else None)"

section \<open>The registration store\<close>

text \<open>
  The fields of \<open>UserData\<close> carry the prefix \<open>u_\<close>: four of them have the names of
  fields of \<open>FormData\<close>. There is no field for a password.
\<close>

record UserData =
  u_id :: jsstring
  u_fullName :: jsstring
  u_email :: jsstring
  u_phone :: jsstring
  u_dateOfBirth :: jsstring
  u_registeredAt :: jsstring

subsection \<open>\<open>JSON.stringify\<close> of a list of users\<close>

text \<open>
  A string is quoted code point by code point: the seven characters with a short escape,
  then \<open>\uXXXX\<close> (lower-case digits) for a control character or a surrogate without its
  partner, and the character itself otherwise. A surrogate pair is kept as it is.
\<close>

definition hexDigit :: "nat \<Rightarrow> jschar" where
  "hexDigit n = (if n < 10 then of_nat (48 + n) else of_nat (87 + n))"

definition unicodeEscape :: "jschar \<Rightarrow> jsstring" where
  "unicodeEscape c = [0x5C, 0x75, hexDigit (unat c div 4096), hexDigit (unat c div 256 mod 16),
     hexDigit (unat c div 16 mod 16), hexDigit (unat c mod 16)]"

definition isLead :: "jschar \<Rightarrow> bool" where
  "isLead c = (0xD800 \<le> c \<and> c \<le> 0xDBFF)"

definition isTrail :: "jschar \<Rightarrow> bool" where
  "isTrail c = (0xDC00 \<le> c \<and> c \<le> 0xDFFF)"

definition quoteUnit :: "jschar \<Rightarrow> jsstring" where
  "quoteUnit c =
     (if c = 0x08 then [0x5C, 0x62]
      else if c = 0x09 then [0x5C, 0x74]
      else if c = 0x0A then [0x5C, 0x6E]
      else if c = 0x0C then [0x5C, 0x66]
      else if c = 0x0D then [0x5C, 0x72]
      else if c = 0x22 then [0x5C, 0x22]
      else if c = 0x5C then [0x5C, 0x5C]
      else if c < 0x20 then unicodeEscape c
      else [c])"

fun quoteChars :: "jsstring \<Rightarrow> jsstring" where
  "quoteChars [] = []"
| "quoteChars (c # t) =
     (if isLead c then
        (case t of
           [] \<Rightarrow> unicodeEscape c
         | d # t' \<Rightarrow> if isTrail d then c # d # quoteChars t' else unicodeEscape c @ quoteChars t)
      else if isTrail c then unicodeEscape c @ quoteChars t
      else quoteUnit c @ quoteChars t)"

definition quote :: "jsstring \<Rightarrow> jsstring" where
  "quote s = 0x22 # quoteChars s @ [0x22]"

definition member :: "string \<Rightarrow> jsstring \<Rightarrow> jsstring" where
  "member k v = quote (lit k) @ 0x3A # quote v"

fun joinComma :: "jsstring list \<Rightarrow> jsstring" where
  "joinComma [] = []"
| "joinComma [x] = x"
| "joinComma (x # y # r) = x @ 0x2C # joinComma (y # r)"

text \<open>The properties of an object are written in the order they were created in.\<close>

definition stringifyUser :: "UserData \<Rightarrow> jsstring" where
  "stringifyUser u = 0x7B # joinComma
     [member ''id'' (u_id u), member ''fullName'' (u_fullName u), member ''email'' (u_email u),
      member ''phone'' (u_phone u), member ''dateOfBirth'' (u_dateOfBirth u),
      member ''registeredAt'' (u_registeredAt u)] @ [0x7D]"

definition stringifyUsers :: "UserData list \<Rightarrow> jsstring" where
  "stringifyUsers us = 0x5B # joinComma (map stringifyUser us) @ [0x5D]"

subsection \<open>\<open>JSON.parse\<close>\<close>

text \<open>
  The value of a JSON text. The numeric value of a number is not kept: no user record
  has a number in it.
\<close>

datatype json = JNull | JBool bool | JNum | JStr jsstring | JArr "json list"
  | JObj "(jsstring \<times> json) list"

definition isJsonWs :: "jschar \<Rightarrow> bool" where
  "isJsonWs c = (c = 0x20 \<or> c = 0x09 \<or> c = 0x0A \<or> c = 0x0D)"

definition skipWs :: "jsstring \<Rightarrow> jsstring" where
  "skipWs s = dropWhile isJsonWs s"

definition hexVal :: "jschar \<Rightarrow> nat option" where
  "hexVal c =
     (if isDigit c then Some (unat c - 48)
      else if 0x61 \<le> c \<and> c \<le> 0x66 then Some (unat c - 87)
      else if 0x41 \<le> c \<and> c \<le> 0x46 then Some (unat c - 55)
      else None)"

definition unescape :: "jschar \<Rightarrow> jschar option" where
  "unescape c =
     (if c = 0x22 \<or> c = 0x5C \<or> c = 0x2F then Some c
      else if c = 0x62 then Some 0x08
      else if c = 0x66 then Some 0x0C
      else if c = 0x6E then Some 0x0A
      else if c = 0x72 then Some 0x0D
      else if c = 0x74 then Some 0x09
      else None)"

text \<open>
  \<open>parseChars\<close> reads a string after its opening quote and returns its value and the
  input after the closing quote. Every parser returns \<open>None\<close> for a syntax error.
\<close>

fun parseChars :: "jsstring \<Rightarrow> (jsstring \<times> jsstring) option" where
  "parseChars [] = None"
| "parseChars (c # t) =
     (if c = 0x22 then Some ([], t)
      else if c = 0x5C then
        (case t of
           [] \<Rightarrow> None
         | x # t' \<Rightarrow>
             if x = 0x75 then
               (case t' of
                  h1 # h2 # h3 # h4 # t'' \<Rightarrow>
                    (case (hexVal h1, hexVal h2, hexVal h3, hexVal h4) of
                       (Some a, Some b, Some c', Some d) \<Rightarrow>
                         map_option (\<lambda>(v, r). (of_nat (a * 4096 + b * 256 + c' * 16 + d) # v, r))
                           (parseChars t'')
                     | _ \<Rightarrow> None)
                | _ \<Rightarrow> None)
             else
               (case unescape x of
                  None \<Rightarrow> None
                | Some u \<Rightarrow> map_option (\<lambda>(v, r). (u # v, r)) (parseChars t')))
      else if c < 0x20 then None
      else map_option (\<lambda>(v, r). (c # v, r)) (parseChars t))"

text \<open>A number: \<open>-? (0 | [1-9][0-9]*) (. [0-9]+)? ([eE] [+-]? [0-9]+)?\<close>; the rest is returned.\<close>

definition parseExp :: "jsstring \<Rightarrow> jsstring option" where
  "parseExp s =
     (case s of
        [] \<Rightarrow> Some s
      | c # t \<Rightarrow>
          if c = 0x65 \<or> c = 0x45 then
            (let t1 = (case t of [] \<Rightarrow> t | g # t' \<Rightarrow> if g = 0x2B \<or> g = 0x2D then t' else t)
             in case t1 of
                  [] \<Rightarrow> None
                | d # _ \<Rightarrow> if isDigit d then Some (dropWhile isDigit t1) else None)
          else Some s)"

definition parseFrac :: "jsstring \<Rightarrow> jsstring option" where
  "parseFrac s =
     (case s of
        [] \<Rightarrow> Some s
      | c # t \<Rightarrow>
          if c = 0x2E then
            (case t of
               [] \<Rightarrow> None
             | d # _ \<Rightarrow> if isDigit d then parseExp (dropWhile isDigit t) else None)
          else parseExp s)"

definition parseNumber :: "jsstring \<Rightarrow> jsstring option" where
  "parseNumber s =
     (let s1 = (case s of [] \<Rightarrow> s | c # t \<Rightarrow> if c = 0x2D then t else s)
      in case s1 of
           [] \<Rightarrow> None
         | c # t \<Rightarrow>
             if c = 0x30 then parseFrac t
             else if isDigit c then parseFrac (dropWhile isDigit t)
             else None)"

text \<open>
  \<open>parseValue\<close> reads a value at the head of the input; \<open>parseElements\<close> reads the
  elements of an array and its closing bracket, \<open>parseMembers\<close> the members of an object
  and its closing brace. A value takes at least one character, which the comparisons of
  lengths record for the recursion.
\<close>

function (sequential) parseValue :: "jsstring \<Rightarrow> (json \<times> jsstring) option"
  and parseElements :: "jsstring \<Rightarrow> (json list \<times> jsstring) option"
  and parseMembers :: "jsstring \<Rightarrow> ((jsstring \<times> json) list \<times> jsstring) option"
where
  "parseValue [] = None"
| "parseValue (c # t) =
     (if c = 0x5B then
        (case skipWs t of
           [] \<Rightarrow> None
         | d # t' \<Rightarrow>
             if d = 0x5D then Some (JArr [], t')
             else map_option (\<lambda>(vs, r). (JArr vs, r)) (parseElements (skipWs t)))
      else if c = 0x7B then
        (case skipWs t of
           [] \<Rightarrow> None
         | d # t' \<Rightarrow>
             if d = 0x7D then Some (JObj [], t')
             else map_option (\<lambda>(ms, r). (JObj ms, r)) (parseMembers (skipWs t)))
      else if c = 0x22 then map_option (\<lambda>(v, r). (JStr v, r)) (parseChars t)
      else if take 4 (c # t) = lit ''true'' then Some (JBool True, drop 4 (c # t))
      else if take 5 (c # t) = lit ''false'' then Some (JBool False, drop 5 (c # t))
      else if take 4 (c # t) = lit ''null'' then Some (JNull, drop 4 (c # t))
      else map_option (\<lambda>r. (JNum, r)) (parseNumber (c # t)))"
| "parseElements s =
     (case parseValue s of
        None \<Rightarrow> None
      | Some (v, r) \<Rightarrow>
          (case skipWs r of
             [] \<Rightarrow> None
           | d # r' \<Rightarrow>
               if d = 0x5D then Some ([v], r')
               else if d = 0x2C \<and> length r' < length s then
                 map_option (\<lambda>(vs, r''). (v # vs, r'')) (parseElements (skipWs r'))
               else None))"
| "parseMembers s =
     (case s of
        [] \<Rightarrow> None
      | q # t \<Rightarrow>
          if q \<noteq> 0x22 then None
          else
            (case parseChars t of
               None \<Rightarrow> None
             | Some (k, r) \<Rightarrow>
                 (case skipWs r of
                    [] \<Rightarrow> None
                  | col # r1 \<Rightarrow>
                      if col = 0x3A \<and> length r1 < length s then
                        (case parseValue (skipWs r1) of
                           None \<Rightarrow> None
                         | Some (v, r2) \<Rightarrow>
                             (case skipWs r2 of
                                [] \<Rightarrow> None
                              | d # r3 \<Rightarrow>
                                  if d = 0x7D then Some ([(k, v)], r3)
                                  else if d = 0x2C \<and> length r3 < length s then
                                    map_option (\<lambda>(ms, r4). ((k, v) # ms, r4))
                                      (parseMembers (skipWs r3))
                                  else None))
                      else None)))"
  by pat_completeness auto
termination
proof (relation "measure (\<lambda>x. case x of
        Inl s \<Rightarrow> 2 * length s
      | Inr (Inl s) \<Rightarrow> 2 * length s + 1
      | Inr (Inr s) \<Rightarrow> 2 * length s + 1)", goal_cases)
  case 1
  show ?case by simp
next
  case (2 c t d t')
  show ?case using length_dropWhile_le[of isJsonWs t] by (simp add: skipWs_def)
next
  case (3 c t d t')
  show ?case using length_dropWhile_le[of isJsonWs t] by (simp add: skipWs_def)
next
  case (4 s)
  show ?case by simp
next
  case (5 s x v r d r')
  then show ?case using length_dropWhile_le[of isJsonWs r'] by (simp add: skipWs_def)
next
  case (6 s q t x k r col r1)
  then show ?case using length_dropWhile_le[of isJsonWs r1] by (simp add: skipWs_def)
next
  case (7 s q t x k r col r1 y v r2 d r3)
  then show ?case using length_dropWhile_le[of isJsonWs r3] by (simp add: skipWs_def)
qed

text \<open>\<open>JSON.parse(s)\<close>: one value between white space; \<open>None\<close> is the \<open>SyntaxError\<close>.\<close>

definition JSON_parse :: "jsstring \<Rightarrow> json option" where
  "JSON_parse s =
     (case parseValue (skipWs s) of
        None \<Rightarrow> None
      | Some (v, r) \<Rightarrow> if skipWs r = [] then Some v else None)"

text \<open>
  The parsed value is stored as the list of users without a check. The model follows the
  program on the values that are a list of users: an array of objects with the six string
  properties of \<open>UserData\<close>, in the order \<open>stringifyUser\<close> writes them.
\<close>

definition asString :: "json \<Rightarrow> jsstring option" where
  "asString j = (case j of JStr s \<Rightarrow> Some s | _ \<Rightarrow> None)"

definition userKeys :: "jsstring list" where
  "userKeys = map lit [''id'', ''fullName'', ''email'', ''phone'', ''dateOfBirth'', ''registeredAt'']"

definition asUser :: "json \<Rightarrow> UserData option" where
  "asUser j =
     (case j of
        JObj ms \<Rightarrow>
          if map fst ms = userKeys then
            (case those (map (asString \<circ> snd) ms) of
               Some [a, b, c, d, e, f] \<Rightarrow>
                 Some \<lparr>u_id = a, u_fullName = b, u_email = c, u_phone = d, u_dateOfBirth = e,
                   u_registeredAt = f\<rparr>
             | _ \<Rightarrow> None)
          else None
      | _ \<Rightarrow> None)"

definition asUsers :: "json \<Rightarrow> UserData list option" where
  "asUsers j = (case j of JArr js \<Rightarrow> those (map asUser js) | _ \<Rightarrow> None)"

text \<open>The value that \<open>JSON.parse\<close> builds for the text of one user.\<close>

definition encodeUser :: "UserData \<Rightarrow> json" where
  "encodeUser u = JObj (zip userKeys (map JStr [u_id u, u_fullName u, u_email u, u_phone u,
     u_dateOfBirth u, u_registeredAt u]))"

section \<open>The application\<close>

text \<open>
  The state of the component and the slot \<open>registeredUsers\<close> of the local storage
  (\<open>None\<close> when the key is absent). The active tab and the two password visibility flags
  only select what is drawn and are left out.
\<close>

record app =
  users :: "UserData list"
  formData :: FormData
  errors :: "field \<Rightarrow> string option"
  touched :: "field \<Rightarrow> bool"
  showSuccess :: bool
  storage :: "jsstring option"

definition initialForm :: FormData where
  "initialForm = \<lparr>fullName = [], email = [], password = [], confirmPassword = [], phone = [],
     dateOfBirth = []\<rparr>"

definition initialApp :: "jsstring option \<Rightarrow> app" where
  "initialApp slot = \<lparr>users = [], formData = initialForm, errors = (\<lambda>_. None),
     touched = (\<lambda>_. False), showSuccess = False, storage = slot\<rparr>"

text \<open>
  The effect that runs once after the first rendering. \<open>JSON.parse\<close> is called outside any
  \<open>try\<close>, so its \<open>SyntaxError\<close> leaves the effect. \<open>Untyped\<close> is a parsed value that is not
  a list of users.
\<close>

datatype startup = Started app | SyntaxError | Untyped json

definition loadUsers :: "app \<Rightarrow> startup" where
  "loadUsers st =
     (case storage st of
        None \<Rightarrow> Started st
      | Some storedUsers \<Rightarrow>
          if storedUsers = [] then Started st
          else
            (case JSON_parse storedUsers of
               None \<Rightarrow> SyntaxError
             | Some j \<Rightarrow>
                 (case asUsers j of
                    None \<Rightarrow> Untyped j
                  | Some us \<Rightarrow> Started (st\<lparr>users := us\<rparr>))))"

definition startup :: "jsstring option \<Rightarrow> startup" where
  "startup slot = loadUsers (initialApp slot)"

subsection \<open>\<open>handleSubmit\<close>\<close>

definition formKeys :: "field list" where  \<comment> \<open>\<open>Object.keys(formData)\<close>\<close>
  "formKeys = [FullName, Email, Password, ConfirmPassword, Phone, DateOfBirth]"

fun fieldValue :: "FormData \<Rightarrow> field \<Rightarrow> jsstring" where  \<comment> \<open>\<open>formData[key]\<close>\<close>
  "fieldValue fd FullName = fullName fd"
| "fieldValue fd Email = email fd"
| "fieldValue fd Password = password fd"
| "fieldValue fd ConfirmPassword = confirmPassword fd"
| "fieldValue fd Phone = phone fd"
| "fieldValue fd DateOfBirth = dateOfBirth fd"

definition truthy :: "string option \<Rightarrow> bool" where  \<comment> \<open>\<open>if (error)\<close>\<close>
  "truthy error = (case error of None \<Rightarrow> False | Some m \<Rightarrow> m \<noteq> [])"

text \<open>One round of the loop over the keys: the pair is \<open>newErrors\<close> and \<open>hasErrors\<close>.\<close>

definition checkKey ::
  "env \<Rightarrow> FormData \<Rightarrow> (field \<Rightarrow> string option) \<times> bool \<Rightarrow> field \<Rightarrow> (field \<Rightarrow> string option) \<times> bool"
where
  "checkKey e fd acc key =
     (let error = validateField e fd key (fieldValue fd key)
      in if truthy error then ((fst acc)(key := error), True) else acc)"

fun toString :: "nat \<Rightarrow> jsstring" where  \<comment> \<open>the decimal digits of \<open>Date.now()\<close>\<close>
  "toString n = (if n < 10 then [of_nat (48 + n)] else toString (n div 10) @ [of_nat (48 + n mod 10)])"

definition newUser :: "env \<Rightarrow> FormData \<Rightarrow> UserData" where
  "newUser e fd = \<lparr>u_id = toString (nowMs e), u_fullName = fullName fd, u_email = email fd,
     u_phone = phone fd, u_dateOfBirth = dateOfBirth fd, u_registeredAt = nowISO e\<rparr>"

text \<open>
  The success message is hidden again by a timer three seconds later; the timer is not
  part of the model. Writing to the storage is taken to succeed.
\<close>

definition handleSubmit :: "env \<Rightarrow> app \<Rightarrow> app" where
  "handleSubmit e st =
     (let (newErrors, hasErrors) = foldl (checkKey e (formData st)) (\<lambda>_. None, False) formKeys
      in if hasErrors then st\<lparr>errors := newErrors, touched := (\<lambda>_. True)\<rparr>
         else
           (let updatedUsers = users st @ [newUser e (formData st)]
            in st\<lparr>users := updatedUsers, formData := initialForm, errors := (\<lambda>_. None),
                 touched := (\<lambda>_. False), showSuccess := True,
                 storage := Some (stringifyUsers updatedUsers)\<rparr>))"

text \<open>Every field of the form passes \<open>validateField\<close> on its current value.\<close>

definition allFieldsPass :: "env \<Rightarrow> FormData \<Rightarrow> bool" where
  "allFieldsPass e fd = list_all (\<lambda>key. validateField e fd key (fieldValue fd key) = None) formKeys"

subsection \<open>\<open>handleDeleteUser\<close>\<close>

definition handleDeleteUser :: "jsstring \<Rightarrow> app \<Rightarrow> app" where
  "handleDeleteUser ident st =
     (let updatedUsers = filter (\<lambda>user. u_id user \<noteq> ident) (users st)
      in st\<lparr>users := updatedUsers, storage := Some (stringifyUsers updatedUsers)\<rparr>)"

section \<open>A host for concrete runs\<close>

text \<open>
  A date parser that reads the form \<open>YYYY-MM-DD\<close>, which a date input produces, in a
  zone without offset, and rejects every other string; the clock stands at
  2026-11-03T09:30:00.000Z.
\<close>

definition digitVal :: "jschar \<Rightarrow> int" where
  "digitVal c = uint c - 48"

definition isoDateYear :: "jsstring \<Rightarrow> jsnum" where
  "isoDateYear s =
     (case s of
        [y1, y2, y3, y4, h1, m1, m2, h2, d1, d2] \<Rightarrow>
          (let month = 10 * digitVal m1 + digitVal m2; day = 10 * digitVal d1 + digitVal d2
           in if list_all isDigit [y1, y2, y3, y4, m1, m2, d1, d2] \<and> h1 = 0x2D \<and> h2 = 0x2D
                 \<and> 1 \<le> month \<and> month \<le> 12 \<and> 1 \<le> day \<and> day \<le> 31
              then Num (1000 * digitVal y1 + 100 * digitVal y2 + 10 * digitVal y3 + digitVal y4)
              else NaN)
      | _ \<Rightarrow> NaN)"

definition sampleEnv :: env where
  "sampleEnv = \<lparr>getFullYear = isoDateYear, todayYear = 2026, nowMs = 1793698200000,
     nowISO = lit ''2026-11-03T09:30:00.000Z''\<rparr>"

text \<open>
  Four forms: one that passes every check, the same with blanks around the name, the
  same with a password of lower-case letters only, and the same with another password
  that passes.
\<close>

definition validForm :: FormData where
  "validForm = \<lparr>fullName = lit ''Jo'', email = lit ''a@b.com'', password = lit ''Abcdef1!'',
     confirmPassword = lit ''Abcdef1!'', phone = lit ''1234567890'',
     dateOfBirth = lit ''2000-01-01''\<rparr>"

definition paddedForm :: FormData where
  "paddedForm = validForm\<lparr>fullName := lit '' Jo ''\<rparr>"

definition weakForm :: FormData where
  "weakForm = validForm\<lparr>password := lit ''abcdefgh'', confirmPassword := lit ''abcdefgh''\<rparr>"

definition otherForm :: FormData where
  "otherForm = validForm\<lparr>password := lit ''Xyzabc9?'', confirmPassword := lit ''Xyzabc9?''\<rparr>"

section \<open>Properties of the matcher\<close>

declare rmatch.simps(6) [simp del]
declare toString.simps [simp del]

lemma star_unfold:
  "rmatch (Star r) st =
     concat (map (\<lambda>m. if length (snd m) < length (snd st) then rmatch (Star r) m else [])
                 (rmatch r st)) @ [st]"
  by (rule rmatch.simps(6))

lemma star_mem:
  "st' \<in> set (rmatch (Star r) st) \<longleftrightarrow>
     st' = st \<or> (\<exists>m \<in> set (rmatch r st). length (snd m) < length (snd st) \<and> st' \<in> set (rmatch (Star r) m))"
  by (subst star_unfold) (auto split: if_splits)

text \<open>A match ends in a suffix of the input it started from.\<close>

lemma rmatch_rest_suffix:
  "st' \<in> set (rmatch r st) \<Longrightarrow> \<exists>u. snd st = u @ snd st'"
proof (induction r st arbitrary: st' rule: rmatch.induct)
  case (1 p b s)
  then show ?case by (auto split: list.splits if_splits)
next
  case (2 b s)
  then show ?case by (auto split: if_splits)
next
  case (3 b s)
  then show ?case by (auto split: if_splits)
next
  case (4 r1 r2 st)
  from "4.prems" obtain m where m: "m \<in> set (rmatch r1 st)" and s: "st' \<in> set (rmatch r2 m)"
    by auto
  from "4.IH"(1)[OF m] obtain u where u: "snd st = u @ snd m" by blast
  from "4.IH"(2)[OF m s] obtain w where w: "snd m = w @ snd st'" by blast
  from u w show ?case by simp
next
  case (5 r st)
  then show ?case by (cases st') auto
next
  case (6 r st)
  from "6.prems" consider "st' = st"
    | m where "m \<in> set (rmatch r st)" "length (snd m) < length (snd st)" "st' \<in> set (rmatch (Star r) m)"
    unfolding star_mem[of st' r st] by blast
  then show ?case
  proof cases
    case 1
    then show ?thesis by simp
  next
    case 2
    from "6.IH"(1)[OF 2(1)] obtain u where u: "snd st = u @ snd m" by blast
    from "6.IH"(2)[OF 2(1) 2(2) 2(3)] obtain w where w: "snd m = w @ snd st'" by blast
    from u w show ?thesis by simp
  qed
next
  case (7 r st)
  from "7.prems" have "st' = st" by (simp split: if_splits)
  then show ?case by simp
qed

lemma star_cls_unfold:
  "rmatch (Star (Cls p)) (b, s) =
     (case s of [] \<Rightarrow> [(b, [])]
      | c # t \<Rightarrow> if p c then rmatch (Star (Cls p)) (False, t) @ [(b, c # t)] else [(b, c # t)])"
  by (subst star_unfold) (simp split: list.splits)

lemma star_cls_end:
  "(\<exists>b'. (b', []) \<in> set (rmatch (Star (Cls p)) (b, s))) \<longleftrightarrow> list_all p s"
proof (induction s arbitrary: b)
  case Nil
  show ?case by (subst star_cls_unfold) simp
next
  case (Cons c t)
  show ?case by (subst star_cls_unfold) (simp add: Cons.IH)
qed

lemma star_self: "st \<in> set (rmatch (Star r) st)"
  by (subst star_unfold) simp

lemma search_bol: "search (Seq Bol r) False s = False"
  by (induction s) simp_all

lemma test_bol: "test (Seq Bol r) s \<longleftrightarrow> rmatch r (True, s) \<noteq> []"
  by (cases s) (simp_all add: test_def search_bol)

lemma seq_eol: "rmatch (Seq r Eol) st \<noteq> [] \<longleftrightarrow> (\<exists>b'. (b', []) \<in> set (rmatch r st))"
proof -
  have "rmatch (Seq r Eol) st \<noteq> [] \<longleftrightarrow> (\<exists>m \<in> set (rmatch r st). rmatch Eol m \<noteq> [])"
    by simp
  also have "\<dots> \<longleftrightarrow> (\<exists>b'. (b', []) \<in> set (rmatch r st))"
    by (force split: if_splits)
  finally show ?thesis .
qed

lemma plus_cls_end:
  "(\<exists>b'. (b', []) \<in> set (rmatch (Plus (Cls p)) (b, s))) \<longleftrightarrow> s \<noteq> [] \<and> list_all p s"
proof (cases s)
  case Nil
  then show ?thesis by simp
next
  case (Cons c t)
  show ?thesis
  proof (cases "p c")
    case True
    have "rmatch (Plus (Cls p)) (b, c # t) = rmatch (Star (Cls p)) (False, t)"
      using True by simp
    then show ?thesis using Cons True star_cls_end[of p False t] by simp
  next
    case False
    then show ?thesis using Cons by simp
  qed
qed

text \<open>\<open>/^[class]+$/\<close> accepts the non-empty strings over the class.\<close>

lemma test_anchored_class:
  "test (Seq Bol (Seq (Plus (Cls p)) Eol)) s \<longleftrightarrow> s \<noteq> [] \<and> list_all p s"
  unfolding test_bol seq_eol by (rule plus_cls_end)

lemma look_contains:
  assumes "rmatch (Look (Seq (Star Dot) (Cls p))) (b, s) \<noteq> []"
  shows "list_ex p s"
proof -
  from assms have "rmatch (Seq (Star Dot) (Cls p)) (b, s) \<noteq> []" by (simp split: if_splits)
  then obtain m where m: "m \<in> set (rmatch (Star Dot) (b, s))" and ne: "rmatch (Cls p) m \<noteq> []"
    by auto
  from rmatch_rest_suffix[OF m] obtain u where u: "s = u @ snd m" by auto
  from ne obtain c t where "snd m = c # t" "p c"
    by (cases m) (auto split: list.splits if_splits)
  with u show ?thesis by (auto simp: list_ex_iff)
qed

lemma look_head:
  assumes "p c"
  shows "rmatch (Look (Seq (Star Dot) (Cls p))) (b, c # t) \<noteq> []"
proof -
  have "(b, c # t) \<in> set (rmatch (Star Dot) (b, c # t))" by (rule star_self)
  moreover have "rmatch (Cls p) (b, c # t) \<noteq> []" using assms by simp
  ultimately have "rmatch (Seq (Star Dot) (Cls p)) (b, c # t) \<noteq> []"
    by (simp only: rmatch.simps(4) concat_eq_Nil_conv set_map) blast
  then show ?thesis by simp
qed

lemma search_look:
  "search (Look (Seq (Star Dot) (Cls p))) b s \<longleftrightarrow> list_ex p s"
proof (induction s arbitrary: b)
  case Nil
  show ?case by (simp add: star_unfold)
next
  case (Cons c t)
  show ?case
  proof (cases "p c")
    case True
    then show ?thesis using look_head[of p c b t] by (simp del: rmatch.simps(1-5,7))
  next
    case False
    have "rmatch (Look (Seq (Star Dot) (Cls p))) (b, c # t) \<noteq> [] \<Longrightarrow> list_ex p t"
      using look_contains[of p b "c # t"] False by simp
    then show ?thesis using False Cons.IH[of False] by (auto simp del: rmatch.simps(1-5,7))
  qed
qed

text \<open>\<open>/(?=.*[class])/\<close> accepts the strings with a character of the class.\<close>

lemma test_look: "test (Look (Seq (Star Dot) (Cls p))) s \<longleftrightarrow> list_ex p s"
  by (simp add: test_def search_look)

section \<open>Properties of the field validator\<close>

lemmas char_defs = lit_def isLower_def isUpper_def isDigit_def isSpace_def isLineTerminator_def
  isSpecial_def

text \<open>
  C5. \<open>validateField('fullName', v)\<close> returns an error message exactly when the trimmed
  \<open>v\<close> is empty, or the trimmed \<open>v\<close> has fewer than two characters, or \<open>v\<close> has a
  character that is neither a letter \<open>a-z\<close>, \<open>A-Z\<close> nor white space.
\<close>

theorem validateField_fullName_fails_iff:
  "validateField e fd FullName v \<noteq> None \<longleftrightarrow>
     trim v = [] \<or> length (trim v) < 2 \<or> (\<exists>c \<in> set v. \<not> (isLower c \<or> isUpper c) \<and> \<not> isSpace c)"
proof -
  have "trim v \<noteq> [] \<Longrightarrow> v \<noteq> []" by (auto simp: trim_def)
  then show ?thesis
    by (auto simp: nameRx_def test_anchored_class list_all_iff)
qed

theorem validateField_fullName_fails_iff_witness:
  "validateField sampleEnv initialForm FullName (lit ''J0hn'') \<noteq> None
   \<and> validateField sampleEnv initialForm FullName (lit ''  J '') \<noteq> None
   \<and> validateField sampleEnv initialForm FullName (lit ''Jo Ann'') = None"
  using validateField_fullName_fails_iff[of sampleEnv initialForm "lit ''J0hn''"]
    validateField_fullName_fails_iff[of sampleEnv initialForm "lit ''  J ''"]
    validateField_fullName_fails_iff[of sampleEnv initialForm "lit ''Jo Ann''"]
  by (simp_all add: char_defs trim_def)

text \<open>
  C4. \<open>validateField('password', v)\<close> returns no error exactly when \<open>v\<close> has at least 8
  characters and has a lower-case letter \<open>a-z\<close>, an upper-case letter \<open>A-Z\<close>, a digit
  \<open>0-9\<close> and one of the characters \<open>@$!%*?&\<close>.
\<close>

theorem validateField_password_ok_iff:
  "validateField e fd Password v = None \<longleftrightarrow>
     8 \<le> length v \<and> (\<exists>c \<in> set v. isLower c) \<and> (\<exists>c \<in> set v. isUpper c)
     \<and> (\<exists>c \<in> set v. isDigit c) \<and> (\<exists>c \<in> set v. isSpecial c)"
  by (auto simp: lowerRx_def upperRx_def digitRx_def specialRx_def test_look list_ex_iff)

theorem validateField_password_ok_iff_witness:
  "validateField sampleEnv initialForm Password (lit ''Abcdef1!'') = None
   \<and> validateField sampleEnv initialForm Password (lit ''abcdefgh'') \<noteq> None"
  using validateField_password_ok_iff[of sampleEnv initialForm "lit ''Abcdef1!''"]
    validateField_password_ok_iff[of sampleEnv initialForm "lit ''abcdefgh''"]
  by (simp_all add: char_defs)

text \<open>
  C6. \<open>validateField('confirmPassword', v)\<close> returns no error exactly when \<open>v\<close> is not
  empty and equals the password of the current form data.
\<close>

theorem validateField_confirmPassword_ok_iff:
  "validateField e fd ConfirmPassword v = None \<longleftrightarrow> v \<noteq> [] \<and> v = password fd"
  by simp

theorem validateField_confirmPassword_ok_iff_witness:
  "validateField sampleEnv (initialForm\<lparr>password := lit ''Abcdef1!''\<rparr>) ConfirmPassword
      (lit ''Abcdef1!'') = None
   \<and> validateField sampleEnv (initialForm\<lparr>password := lit ''Abcdef1!''\<rparr>) ConfirmPassword
      (lit ''Abcdef1?'') \<noteq> None
   \<and> validateField sampleEnv initialForm ConfirmPassword [] \<noteq> None"
  using validateField_confirmPassword_ok_iff[of sampleEnv
      "initialForm\<lparr>password := lit ''Abcdef1!''\<rparr>" "lit ''Abcdef1!''"]
    validateField_confirmPassword_ok_iff[of sampleEnv
      "initialForm\<lparr>password := lit ''Abcdef1!''\<rparr>" "lit ''Abcdef1?''"]
    validateField_confirmPassword_ok_iff[of sampleEnv initialForm "[]"]
  by (simp_all add: lit_def initialForm_def)

text \<open>
  C2. A date of birth that does not parse passes the validation: its year is \<open>NaN\<close>, so is
  the age, and both comparisons of the age are false.
\<close>

theorem validateField_dateOfBirth_unparsable_passes:
  "v \<noteq> [] \<Longrightarrow> getFullYear e v = NaN \<Longrightarrow> validateField e fd DateOfBirth v = None"
  by simp

theorem validateField_dateOfBirth_unparsable_passes_witness:
  "lit ''abc'' \<noteq> [] \<and> getFullYear sampleEnv (lit ''abc'') = NaN
   \<and> validateField sampleEnv initialForm DateOfBirth (lit ''abc'') = None"
proof -
  have 1: "lit ''abc'' \<noteq> []" by (simp add: lit_def)
  have 2: "getFullYear sampleEnv (lit ''abc'') = NaN"
    by (simp add: sampleEnv_def isoDateYear_def lit_def)
  show ?thesis
    using 1 2 validateField_dateOfBirth_unparsable_passes[OF 1 2, of initialForm] by simp
qed

section \<open>Writing and reading the list of users\<close>

declare parseValue.simps [simp del] parseElements.simps [simp del] parseMembers.simps [simp del]
declare parseChars.simps(2) [simp del]

subsection \<open>The parser consumes its input\<close>

lemma parseChars_shorter: "parseChars s = Some (v, r) \<Longrightarrow> length r < length s"
proof (induction s arbitrary: v r rule: length_induct)
  case (1 s)
  have IH: "parseChars ys = Some (w, q) \<Longrightarrow> length ys < length s \<Longrightarrow> length q < length s"
    for ys w q
    using "1.IH" by fastforce
  show ?case
  proof (cases s)
    case Nil
    with "1.prems" show ?thesis by simp
  next
    case (Cons c t)
    from "1.prems" show ?thesis
      unfolding Cons
      by (subst (asm) parseChars.simps(2))
        (auto split: if_splits list.splits option.splits prod.splits dest!: IH simp: Cons)
  qed
qed

lemma parseExp_shorter: "parseExp s = Some r \<Longrightarrow> length r \<le> length s"
  using length_dropWhile_le[of isDigit "tl s"] length_dropWhile_le[of isDigit "tl (tl s)"]
  by (auto simp: parseExp_def Let_def split: list.splits if_splits)

lemma parseFrac_shorter: "parseFrac s = Some r \<Longrightarrow> length r \<le> length s"
  using length_dropWhile_le[of isDigit "tl s"]
  by (auto simp: parseFrac_def split: list.splits if_splits dest!: parseExp_shorter)

lemma parseNumber_shorter: "parseNumber s = Some r \<Longrightarrow> length r < length s"
  using length_dropWhile_le[of isDigit "tl s"] length_dropWhile_le[of isDigit "tl (tl s)"]
  by (auto simp: parseNumber_def Let_def split: list.splits if_splits dest!: parseFrac_shorter)


lemma skipWs_le: "length (skipWs s) \<le> length s"
  by (simp add: skipWs_def length_dropWhile_le)

lemma skipWs_Cons_shorter: "skipWs s = d # r \<Longrightarrow> length r < length s"
  using skipWs_le[of s] by simp

text \<open>
  A value, a list of elements and a list of members each take at least one character of
  the input.
\<close>

lemma parse_shorter:
  "(\<forall>v r. parseValue s = Some (v, r) \<longrightarrow> length r < length s)
   \<and> (\<forall>vs r. parseElements s = Some (vs, r) \<longrightarrow> length r < length s)
   \<and> (\<forall>ms r. parseMembers s = Some (ms, r) \<longrightarrow> length r < length s)"
proof (induction s rule: length_induct)
  case (1 s)
  have IHv: "length r < n" if "parseValue ys = Some (v, r)" "length ys \<le> n" "n < length s"
    for ys v r n
  proof -
    from that(2,3) have "length ys < length s" by simp
    with "1.IH" that(1) have "length r < length ys" by blast
    with that(2) show ?thesis by simp
  qed
  have IHe: "length r < n" if "parseElements ys = Some (vs, r)" "length ys \<le> n" "n < length s"
    for ys vs r n
  proof -
    from that(2,3) have "length ys < length s" by simp
    with "1.IH" that(1) have "length r < length ys" by blast
    with that(2) show ?thesis by simp
  qed
  have IHm: "length r < n" if "parseMembers ys = Some (ms, r)" "length ys \<le> n" "n < length s"
    for ys ms r n
  proof -
    from that(2,3) have "length ys < length s" by simp
    with "1.IH" that(1) have "length r < length ys" by blast
    with that(2) show ?thesis by simp
  qed
  have V: "length r < length s" if p: "parseValue s = Some (v, r)" for v r
  proof (cases s)
    case Nil
    with p show ?thesis by (simp add: parseValue.simps)
  next
    case (Cons c t)
    have t: "length (skipWs t) \<le> length t" "length t < length s"
      by (simp_all add: skipWs_le Cons)
    consider (arr) "c = 0x5B" | (obj) "c \<noteq> 0x5B" "c = 0x7B" | (str) "c \<noteq> 0x5B" "c \<noteq> 0x7B" "c = 0x22"
      | (other) "c \<noteq> 0x5B" "c \<noteq> 0x7B" "c \<noteq> 0x22"
      by blast
    then show ?thesis
    proof cases
      case arr
      with p obtain d t' where d: "skipWs t = d # t'"
        and rest: "d = 0x5D \<and> r = t' \<or> (\<exists>vs. parseElements (d # t') = Some (vs, r))"
        unfolding Cons
        by (subst (asm) parseValue.simps(2)) (auto split: list.splits if_splits)
      from skipWs_le[of t] d have le: "length (d # t') \<le> length t" by simp
      from rest show ?thesis
      proof
        assume "d = 0x5D \<and> r = t'"
        with le show ?thesis by (simp add: Cons)
      next
        assume "\<exists>vs. parseElements (d # t') = Some (vs, r)"
        then obtain vs where "parseElements (d # t') = Some (vs, r)" by blast
        from IHe[OF this le t(2)] show ?thesis by (simp add: Cons)
      qed
    next
      case obj
      with p obtain d t' where d: "skipWs t = d # t'"
        and rest: "d = 0x7D \<and> r = t' \<or> (\<exists>ms. parseMembers (d # t') = Some (ms, r))"
        unfolding Cons
        by (subst (asm) parseValue.simps(2)) (auto split: list.splits if_splits)
      from skipWs_le[of t] d have le: "length (d # t') \<le> length t" by simp
      from rest show ?thesis
      proof
        assume "d = 0x7D \<and> r = t'"
        with le show ?thesis by (simp add: Cons)
      next
        assume "\<exists>ms. parseMembers (d # t') = Some (ms, r)"
        then obtain ms where "parseMembers (d # t') = Some (ms, r)" by blast
        from IHm[OF this le t(2)] show ?thesis by (simp add: Cons)
      qed
    next
      case str
      with p show ?thesis
        unfolding Cons
        by (subst (asm) parseValue.simps(2)) (auto dest!: parseChars_shorter)
    next
      case other
      with p show ?thesis
        unfolding Cons
        by (subst (asm) parseValue.simps(2))
          (auto split: if_splits dest!: parseNumber_shorter)
    qed
  qed
  have E: "length r < length s" if p: "parseElements s = Some (vs, r)" for vs r
  proof -
    from p obtain v q d q' where v: "parseValue s = Some (v, q)" and d: "skipWs q = d # q'"
      and rest: "d = 0x5D \<and> r = q' \<or> d = 0x2C \<and> length q' < length s
        \<and> (\<exists>vs'. parseElements (skipWs q') = Some (vs', r))"
      by (subst (asm) parseElements.simps)
        (auto split: option.splits list.splits if_splits prod.splits)
    from V[OF v] skipWs_Cons_shorter[OF d] have q': "length q' < length s" by simp
    from rest show ?thesis
    proof
      assume "d = 0x5D \<and> r = q'"
      with q' show ?thesis by simp
    next
      assume "d = 0x2C \<and> length q' < length s \<and> (\<exists>vs'. parseElements (skipWs q') = Some (vs', r))"
      then obtain vs' where "parseElements (skipWs q') = Some (vs', r)" by blast
      from IHe[OF this skipWs_le q'] q' show ?thesis by simp
    qed
  qed
  have M: "length r < length s" if p: "parseMembers s = Some (ms, r)" for ms r
  proof -
    from p obtain t k q q1 v q2 d q3 where s: "s = 0x22 # t" and k: "parseChars t = Some (k, q)"
      and c: "skipWs q = 0x3A # q1" and v: "parseValue (skipWs q1) = Some (v, q2)"
      and d: "skipWs q2 = d # q3"
      and rest: "d = 0x7D \<and> r = q3 \<or> d = 0x2C \<and> length q3 < length s
        \<and> (\<exists>ms'. parseMembers (skipWs q3) = Some (ms', r))"
      by (subst (asm) parseMembers.simps)
        (auto split: option.splits list.splits if_splits prod.splits)
    from parseChars_shorter[OF k] skipWs_Cons_shorter[OF c] s have q1: "length q1 < length s"
      by simp
    from IHv[OF v skipWs_le q1] skipWs_Cons_shorter[OF d] q1 have q3: "length q3 < length s"
      by simp
    from rest show ?thesis
    proof
      assume "d = 0x7D \<and> r = q3"
      with q3 show ?thesis by simp
    next
      assume "d = 0x2C \<and> length q3 < length s \<and> (\<exists>ms'. parseMembers (skipWs q3) = Some (ms', r))"
      then obtain ms' where "parseMembers (skipWs q3) = Some (ms', r)" by blast
      from IHm[OF this skipWs_le q3] q3 show ?thesis by simp
    qed
  qed
  from V E M show ?case by blast
qed


text \<open>
  So the comparisons of lengths in \<open>parseElements\<close> and \<open>parseMembers\<close> always hold, and
  the two functions are the plain descent over the grammar.
\<close>

lemma parseElements_plain:
  "parseElements s =
     (case parseValue s of
        None \<Rightarrow> None
      | Some (v, r) \<Rightarrow>
          (case skipWs r of
             [] \<Rightarrow> None
           | d # r' \<Rightarrow>
               if d = 0x5D then Some ([v], r')
               else if d = 0x2C then
                 map_option (\<lambda>(vs, r''). (v # vs, r'')) (parseElements (skipWs r'))
               else None))"
proof (cases "parseValue s")
  case None
  then show ?thesis by (subst parseElements.simps) simp
next
  case (Some p)
  obtain v r where p: "p = (v, r)" by (cases p)
  show ?thesis
  proof (cases "skipWs r")
    case Nil
    with Some p show ?thesis by (subst parseElements.simps) simp
  next
    case (Cons d r')
    from parse_shorter[of s] Some p have "length r < length s" by blast
    with skipWs_Cons_shorter[OF Cons] have "length r' < length s" by simp
    with Some p Cons show ?thesis by (subst parseElements.simps) simp
  qed
qed

lemma parseMembers_plain:
  "parseMembers s =
     (case s of
        [] \<Rightarrow> None
      | q # t \<Rightarrow>
          if q \<noteq> 0x22 then None
          else
            (case parseChars t of
               None \<Rightarrow> None
             | Some (k, r) \<Rightarrow>
                 (case skipWs r of
                    [] \<Rightarrow> None
                  | col # r1 \<Rightarrow>
                      if col = 0x3A then
                        (case parseValue (skipWs r1) of
                           None \<Rightarrow> None
                         | Some (v, r2) \<Rightarrow>
                             (case skipWs r2 of
                                [] \<Rightarrow> None
                              | d # r3 \<Rightarrow>
                                  if d = 0x7D then Some ([(k, v)], r3)
                                  else if d = 0x2C then
                                    map_option (\<lambda>(ms, r4). ((k, v) # ms, r4))
                                      (parseMembers (skipWs r3))
                                  else None))
                      else None)))"
proof (cases s)
  case Nil
  then show ?thesis by (subst parseMembers.simps) simp
next
  case s: (Cons q t)
  show ?thesis
  proof (cases "parseChars t")
    case None
    with s show ?thesis by (subst parseMembers.simps) simp
  next
    case (Some p)
    obtain k r where p: "p = (k, r)" by (cases p)
    note k = Some[unfolded p]
    show ?thesis
    proof (cases "skipWs r")
      case Nil
      with s k show ?thesis by (subst parseMembers.simps) simp
    next
      case c: (Cons col r1)
      from parseChars_shorter[OF k] skipWs_Cons_shorter[OF c] s
      have r1: "length r1 < length s" by simp
      show ?thesis
      proof (cases "parseValue (skipWs r1)")
        case None
        with s k c r1 show ?thesis by (subst parseMembers.simps) simp
      next
        case (Some p2)
        obtain v r2 where p2: "p2 = (v, r2)" by (cases p2)
        note v = Some[unfolded p2]
        show ?thesis
        proof (cases "skipWs r2")
          case Nil
          with s k c r1 v show ?thesis by (subst parseMembers.simps) simp
        next
          case d: (Cons d r3)
          from parse_shorter[of "skipWs r1"] v have "length r2 < length (skipWs r1)" by blast
          with skipWs_le[of r1] r1 skipWs_Cons_shorter[OF d]
          have r3: "length r3 < length s" by simp
          from s k c r1 v d r3 show ?thesis by (subst parseMembers.simps) simp
        qed
      qed
    qed
  qed
qed

subsection \<open>Reading what was written\<close>

lemma unat_hexDigit:
  assumes "n < 16"
  shows "unat (48 + word_of_nat n :: jschar) = 48 + n"
    and "unat (87 + word_of_nat n :: jschar) = 87 + n"
proof -
  have "(48 + word_of_nat n :: jschar) = word_of_nat (48 + n)" by simp
  then show "unat (48 + word_of_nat n :: jschar) = 48 + n"
    using assms by (simp only: unat_of_nat) simp
  have "(87 + word_of_nat n :: jschar) = word_of_nat (87 + n)" by simp
  then show "unat (87 + word_of_nat n :: jschar) = 87 + n"
    using assms by (simp only: unat_of_nat) simp
qed

lemma hexVal_hexDigit: "n < 16 \<Longrightarrow> hexVal (hexDigit n) = Some n"
  by (auto simp: hexVal_def hexDigit_def isDigit_def word_le_nat_alt unat_hexDigit)

lemma unat_jschar_bound: "unat (c :: jschar) div 4096 < 16"
proof -
  have "unat c < 2 ^ 16" using unsigned_less[of c] by simp
  then show ?thesis by simp
qed

lemma lead_plain: "isLead c \<Longrightarrow> c \<noteq> 0x22 \<and> c \<noteq> 0x5C \<and> \<not> c < 0x20"
  by (auto simp: isLead_def word_le_nat_alt word_less_nat_alt)

lemma trail_plain: "isTrail c \<Longrightarrow> c \<noteq> 0x22 \<and> c \<noteq> 0x5C \<and> \<not> c < 0x20"
  by (auto simp: isTrail_def word_le_nat_alt word_less_nat_alt)


lemma hex_digits_value:
  "(n::nat) div 4096 * 4096 + n div 256 mod 16 * 256 + n div 16 mod 16 * 16 + n mod 16 = n"
proof -
  define m where "m = n div 16"
  define k where "k = m div 16"
  define j where "j = k div 16"
  have k: "n div 256 = k" unfolding k_def m_def by (simp add: div_mult2_eq[symmetric])
  have j: "n div 4096 = j" unfolding j_def k_def m_def by (simp add: div_mult2_eq[symmetric])
  have 1: "n = m * 16 + n mod 16" unfolding m_def by simp
  have 2: "m = k * 16 + m mod 16" unfolding k_def by simp
  have 3: "k = j * 16 + k mod 16" unfolding j_def by simp
  have "j * 4096 + k mod 16 * 256 + m mod 16 * 16 + n mod 16 = n"
    using 1 2 3 by linarith
  then show ?thesis unfolding k j m_def[symmetric] .
qed

lemma parseChars_plain:
  "c \<noteq> 0x22 \<Longrightarrow> c \<noteq> 0x5C \<Longrightarrow> \<not> c < 0x20 \<Longrightarrow>
   parseChars (c # r) = map_option (\<lambda>(v, r'). (c # v, r')) (parseChars r)"
  by (simp add: parseChars.simps(2))


lemma parseChars_unicodeEscape:
  "parseChars (unicodeEscape c @ r) = map_option (\<lambda>(v, r'). (c # v, r')) (parseChars r)"
proof -
  have "word_of_nat (unat c div 4096 * 4096 + unat c div 256 mod 16 * 256
      + unat c div 16 mod 16 * 16 + unat c mod 16) = c"
    by (simp only: hex_digits_value) simp
  then have "parseChars (0x5C # 0x75 # hexDigit (unat c div 4096) # hexDigit (unat c div 256 mod 16)
      # hexDigit (unat c div 16 mod 16) # hexDigit (unat c mod 16) # r)
    = map_option (\<lambda>(v, r'). (c # v, r')) (parseChars r)"
    by (subst parseChars.simps(2)) (simp add: hexVal_hexDigit unat_jschar_bound)
  then show ?thesis by (simp add: unicodeEscape_def)
qed


lemma parseChars_escape:
  "x \<noteq> 0x75 \<Longrightarrow> unescape x = Some u \<Longrightarrow>
   parseChars (0x5C # x # r) = map_option (\<lambda>(v, r'). (u # v, r')) (parseChars r)"
  by (simp add: parseChars.simps(2))

lemma parseChars_quoteUnit:
  "parseChars (quoteUnit c @ r) = map_option (\<lambda>(v, r'). (c # v, r')) (parseChars r)"
proof -
  consider "c = 0x08" | "c = 0x09" | "c = 0x0A" | "c = 0x0C" | "c = 0x0D" | "c = 0x22" | "c = 0x5C"
    | "c \<noteq> 0x08" "c \<noteq> 0x09" "c \<noteq> 0x0A" "c \<noteq> 0x0C" "c \<noteq> 0x0D" "c \<noteq> 0x22" "c \<noteq> 0x5C"
    by blast
  then show ?thesis
  proof cases
    case 8
    then show ?thesis
      by (cases "c < 0x20") (simp_all add: quoteUnit_def parseChars_unicodeEscape parseChars_plain)
  qed (simp_all add: quoteUnit_def parseChars_escape unescape_def)
qed


text \<open>Reading a quoted string gives the string back.\<close>

lemma parseChars_quoteChars:
  "parseChars (quoteChars s @ 0x22 # r) = Some (s, r)"
proof (induction s rule: quoteChars.induct)
  case 1
  show ?case by (simp add: parseChars.simps(2))
next
  case (2 c t)
  show ?case
  proof (cases "isLead c")
    case lead: True
    show ?thesis
    proof (cases t)
      case Nil
      have "parseChars (0x22 # r) = Some ([], r)" by (simp add: parseChars.simps(2))
      then show ?thesis using lead Nil by (simp add: parseChars_unicodeEscape)
    next
      case (Cons d t')
      show ?thesis
      proof (cases "isTrail d")
        case True
        then show ?thesis
          using lead Cons lead_plain[OF lead] trail_plain[OF True] "2.IH"(1)[OF lead Cons True]
          by (simp add: parseChars_plain)
      next
        case False
        then show ?thesis using lead Cons "2.IH"(2)[OF lead Cons False]
          by (simp add: parseChars_unicodeEscape)
      qed
    qed
  next
    case nolead: False
    show ?thesis
    proof (cases "isTrail c")
      case True
      then show ?thesis using nolead "2.IH"(3)[OF nolead True]
        by (simp add: parseChars_unicodeEscape)
    next
      case False
      then show ?thesis using nolead "2.IH"(4)[OF nolead False]
        by (simp add: parseChars_quoteUnit)
    qed
  qed
qed

lemma parseChars_quote:
  "parseChars (tl (quote s) @ r) = Some (s, r)"
  by (simp add: quote_def parseChars_quoteChars)


lemma skipWs_Cons: "\<not> isJsonWs c \<Longrightarrow> skipWs (c # r) = c # r"
  by (simp add: skipWs_def)

lemma skipWs_quote: "skipWs (quote s @ r) = quote s @ r"
  by (simp add: quote_def skipWs_Cons isJsonWs_def)

lemma skipWs_punct:
  "skipWs (0x3A # r) = 0x3A # r" "skipWs (0x2C # r) = 0x2C # r"
  "skipWs (0x7D # r) = 0x7D # r" "skipWs (0x5D # r) = 0x5D # r"
  "skipWs (0x7B # r) = 0x7B # r" "skipWs (0x5B # r) = 0x5B # r"
  by (simp_all add: skipWs_Cons isJsonWs_def)

lemma parseValue_quote: "parseValue (quote s @ r) = Some (JStr s, r)"
  by (simp add: quote_def parseValue.simps parseChars_quoteChars)

lemma parseMembers_quote:
  assumes "\<not> isJsonWs d"
  shows "parseMembers (quote k @ 0x3A # quote v @ d # r) =
     (if d = 0x7D then Some ([(k, JStr v)], r)
      else if d = 0x2C then
        map_option (\<lambda>(ms, r4). ((k, JStr v) # ms, r4)) (parseMembers (skipWs r))
      else None)"
  by (subst parseMembers.simps)
    (simp add: quote_def parseChars_quoteChars skipWs_punct skipWs_Cons[OF assms]
      skipWs_Cons[of "0x22"] isJsonWs_def parseValue.simps(2))

lemma parseMembers_last:
  "parseMembers (quote k @ 0x3A # quote v @ 0x7D # r) = Some ([(k, JStr v)], r)"
  by (simp add: parseMembers_quote isJsonWs_def)

lemma parseMembers_more:
  "parseMembers (quote k @ 0x3A # quote v @ 0x2C # quote k' @ r) =
     map_option (\<lambda>(ms, r4). ((k, JStr v) # ms, r4)) (parseMembers (quote k' @ r))"
  by (simp add: parseMembers_quote isJsonWs_def skipWs_quote)

lemma parseValue_stringifyUser:
  "parseValue (stringifyUser u @ r) = Some (encodeUser u, r)"
proof -
  have "parseMembers (joinComma
     [member ''id'' (u_id u), member ''fullName'' (u_fullName u), member ''email'' (u_email u),
      member ''phone'' (u_phone u), member ''dateOfBirth'' (u_dateOfBirth u),
      member ''registeredAt'' (u_registeredAt u)] @ 0x7D # r)
    = Some (zip userKeys (map JStr [u_id u, u_fullName u, u_email u, u_phone u,
     u_dateOfBirth u, u_registeredAt u]), r)"
    by (simp add: member_def parseMembers_more parseMembers_last userKeys_def)
  then show ?thesis
    by (simp add: stringifyUser_def encodeUser_def parseValue.simps(2) member_def
      quote_def[of "lit ''id''"] skipWs_Cons isJsonWs_def)
qed


lemma skipWs_stringifyUser: "skipWs (stringifyUser u @ r) = stringifyUser u @ r"
  by (simp add: stringifyUser_def skipWs_punct)

lemma skipWs_joinComma:
  "skipWs (joinComma (stringifyUser y # xs) @ r) = joinComma (stringifyUser y # xs) @ r"
  by (cases xs) (simp_all add: skipWs_stringifyUser)

lemma skipWs_Nil: "skipWs [] = []"
  by (simp add: skipWs_def)

lemma parseElements_users:
  "parseElements (joinComma (map stringifyUser (u # us)) @ 0x5D # r) = Some (map encodeUser (u # us), r)"
proof (induction us arbitrary: u)
  case Nil
  show ?case
    by (subst parseElements.simps) (simp add: parseValue_stringifyUser skipWs_punct)
next
  case (Cons y ys)
  have "parseElements (joinComma (stringifyUser y # map stringifyUser ys) @ 0x5D # r)
      = Some (encodeUser y # map encodeUser ys, r)"
    using Cons.IH[of y] by simp
  then show ?case
    by (subst parseElements.simps)
      (simp add: parseValue_stringifyUser skipWs_punct skipWs_joinComma)
qed

text \<open>Parsing the text written for a list of users gives the list back.\<close>

lemma JSON_parse_stringifyUsers:
  "JSON_parse (stringifyUsers us) = Some (JArr (map encodeUser us))"
proof (cases us)
  case Nil
  have "parseValue [0x5B, 0x5D] = Some (JArr [], [])"
    by (subst parseValue.simps(2)) (simp add: skipWs_punct)
  then show ?thesis using Nil
    by (simp add: JSON_parse_def stringifyUsers_def skipWs_punct skipWs_Nil)
next
  case (Cons u us')
  obtain w where w: "joinComma (map stringifyUser (u # us')) @ [0x5D] = 0x7B # w"
    by (cases us') (simp_all add: stringifyUser_def)
  have "parseElements (0x7B # w) = Some (map encodeUser (u # us'), [])"
    using parseElements_users[of u us' "[]"] unfolding w .
  then have "parseValue (0x5B # 0x7B # w) = Some (JArr (map encodeUser (u # us')), [])"
    by (subst parseValue.simps(2)) (simp add: skipWs_punct)
  then show ?thesis using Cons w
    by (simp add: JSON_parse_def stringifyUsers_def skipWs_punct skipWs_Nil)
qed

lemma asUser_encodeUser: "asUser (encodeUser u) = Some u"
  by (simp add: asUser_def encodeUser_def userKeys_def asString_def)

lemma asUsers_encode: "asUsers (JArr (map encodeUser us)) = Some us"
proof -
  have "those (map asUser (map encodeUser us)) = Some us"
    by (induction us) (simp_all add: asUser_encodeUser)
  then show ?thesis by (simp add: asUsers_def)
qed

lemma stringifyUsers_not_Nil: "stringifyUsers us \<noteq> []"
  by (simp add: stringifyUsers_def)

lemma startup_stringifyUsers:
  "startup (Some (stringifyUsers us)) = Started ((initialApp (Some (stringifyUsers us)))\<lparr>users := us\<rparr>)"
  by (simp add: startup_def loadUsers_def initialApp_def stringifyUsers_not_Nil
    JSON_parse_stringifyUsers asUsers_encode)

section \<open>Concrete runs of the validator\<close>

lemmas regex_defs = nameRx_def emailRx_def phoneRx_def lowerRx_def upperRx_def digitRx_def
  specialRx_def

lemma sample_fullName:
  "validateField sampleEnv fd FullName (lit ''Jo'') = None"
  "validateField sampleEnv fd FullName (lit '' Jo '') = None"
  by (simp_all add: nameRx_def test_anchored_class trim_def char_defs)

lemma sample_email: "validateField sampleEnv fd Email (lit ''a@b.com'') = None"
  by (simp add: emailRx_def test_bol star_unfold trim_def char_defs)

lemma sample_password:
  "validateField sampleEnv fd Password (lit ''Abcdef1!'') = None"
  "validateField sampleEnv fd Password (lit ''abcdefgh'') =
     Some ''Password must contain an uppercase letter''"
  by (simp_all add: regex_defs test_look lit_def isLower_def isUpper_def isDigit_def isSpecial_def)

lemma sample_phone: "validateField sampleEnv fd Phone (lit ''1234567890'') = None"
  by (simp add: phoneRx_def test_bol star_unfold trim_def char_defs)

lemma sample_dateOfBirth: "validateField sampleEnv fd DateOfBirth (lit ''2000-01-01'') = None"
  by (simp add: sampleEnv_def isoDateYear_def digitVal_def char_defs)

lemmas sample_fields = sample_fullName sample_email sample_password sample_phone
  sample_dateOfBirth

lemma sample_confirmPassword:
  "password fd = lit ''Abcdef1!'' \<Longrightarrow>
   validateField sampleEnv fd ConfirmPassword (lit ''Abcdef1!'') = None"
  by (simp add: lit_def)

lemma validForm_passes: "allFieldsPass sampleEnv validForm"
proof -
  have "validateField sampleEnv validForm key (fieldValue validForm key) = None" for key
    by (cases key) (simp_all add: validForm_def sample_fields sample_confirmPassword
      del: validateField.simps)
  then show ?thesis by (simp add: allFieldsPass_def list_all_iff)
qed

lemma paddedForm_passes: "allFieldsPass sampleEnv paddedForm"
proof -
  have "validateField sampleEnv paddedForm key (fieldValue paddedForm key) = None" for key
    by (cases key) (simp_all add: validForm_def paddedForm_def sample_fields sample_confirmPassword
      del: validateField.simps)
  then show ?thesis by (simp add: allFieldsPass_def list_all_iff)
qed

lemma weakForm_fails: "\<not> allFieldsPass sampleEnv weakForm"
proof -
  have "validateField sampleEnv weakForm Password (fieldValue weakForm Password) \<noteq> None"
    by (simp add: validForm_def weakForm_def sample_fields del: validateField.simps)
  then show ?thesis by (auto simp: allFieldsPass_def formKeys_def)
qed

lemma otherForm_passes: "allFieldsPass sampleEnv otherForm"
proof -
  have "validateField sampleEnv fd Password (lit ''Xyzabc9?'') = None" for fd
    by (simp add: regex_defs test_look lit_def isLower_def isUpper_def isDigit_def isSpecial_def)
  moreover have "validateField sampleEnv otherForm ConfirmPassword (lit ''Xyzabc9?'') = None"
    by (simp add: otherForm_def lit_def)
  ultimately have "validateField sampleEnv otherForm key (fieldValue otherForm key) = None" for key
    by (cases key) (simp_all add: validForm_def otherForm_def sample_fields
      del: validateField.simps)
  then show ?thesis by (simp add: allFieldsPass_def list_all_iff)
qed

section \<open>Submitting the form\<close>

lemma allFieldsPass_iff:
  "allFieldsPass e fd \<longleftrightarrow> (\<forall>key. validateField e fd key (fieldValue fd key) = None)"
proof
  assume a: "allFieldsPass e fd"
  show "\<forall>key. validateField e fd key (fieldValue fd key) = None"
  proof
    fix key
    have "key \<in> set formKeys" by (cases key) (simp_all add: formKeys_def)
    with a show "validateField e fd key (fieldValue fd key) = None"
      unfolding allFieldsPass_def list_all_iff by blast
  qed
next
  assume "\<forall>key. validateField e fd key (fieldValue fd key) = None"
  then show "allFieldsPass e fd" by (simp add: allFieldsPass_def list_all_iff)
qed

text \<open>No message is the empty string, so \<open>if (error)\<close> tests for a message.\<close>

lemma truthy_validateField:
  "truthy (validateField e fd key v) \<longleftrightarrow> validateField e fd key v \<noteq> None"
  by (cases key) (simp_all add: truthy_def Let_def)

lemma foldl_checkKey_hasErrors:
  "snd (foldl (checkKey e fd) acc ks) \<longleftrightarrow>
     snd acc \<or> \<not> list_all (\<lambda>key. validateField e fd key (fieldValue fd key) = None) ks"
  by (induction ks arbitrary: acc) (simp_all add: checkKey_def Let_def truthy_validateField)

lemma hasErrors_iff:
  "snd (foldl (checkKey e fd) (\<lambda>_. None, False) formKeys) \<longleftrightarrow> \<not> allFieldsPass e fd"
  by (simp add: foldl_checkKey_hasErrors allFieldsPass_def)

lemma handleSubmit_pass:
  assumes "allFieldsPass e (formData st)"
  shows "handleSubmit e st = st\<lparr>users := users st @ [newUser e (formData st)],
    formData := initialForm, errors := (\<lambda>_. None), touched := (\<lambda>_. False), showSuccess := True,
    storage := Some (stringifyUsers (users st @ [newUser e (formData st)]))\<rparr>"
  using assms hasErrors_iff[of e "formData st"]
  by (auto simp: handleSubmit_def Let_def split: prod.splits)

lemma handleSubmit_fail:
  assumes "\<not> allFieldsPass e (formData st)"
  shows "handleSubmit e st = st\<lparr>errors := fst (foldl (checkKey e (formData st)) (\<lambda>_. None, False) formKeys),
    touched := (\<lambda>_. True)\<rparr>"
  using assms hasErrors_iff[of e "formData st"]
  by (auto simp: handleSubmit_def Let_def split: prod.splits)


text \<open>
  C3. A submission appends a record exactly when each of the six fields passes
  \<open>validateField\<close> on the current form values. When a field fails, the list and the
  stored text are unchanged; when all pass, the list is the old one followed by the one new
  record, and that list is what is stored.
\<close>

theorem handleSubmit_appends_iff_valid:
  "(users (handleSubmit e st) \<noteq> users st
      \<longleftrightarrow> (\<forall>key. validateField e (formData st) key (fieldValue (formData st) key) = None))
   \<and> ((\<forall>key. validateField e (formData st) key (fieldValue (formData st) key) = None) \<longrightarrow>
        users (handleSubmit e st) = users st @ [newUser e (formData st)]
        \<and> storage (handleSubmit e st) = Some (stringifyUsers (users st @ [newUser e (formData st)])))
   \<and> ((\<exists>key. validateField e (formData st) key (fieldValue (formData st) key) \<noteq> None) \<longrightarrow>
        users (handleSubmit e st) = users st \<and> storage (handleSubmit e st) = storage st)"
proof (cases "allFieldsPass e (formData st)")
  case True
  then show ?thesis
    using handleSubmit_pass[OF True] allFieldsPass_iff[of e "formData st"] by simp
next
  case False
  then show ?thesis
    using handleSubmit_fail[OF False] allFieldsPass_iff[of e "formData st"] by simp
qed

theorem handleSubmit_appends_iff_valid_witness:
  "users (handleSubmit sampleEnv ((initialApp None)\<lparr>formData := validForm\<rparr>))
     = [newUser sampleEnv validForm]
   \<and> storage (handleSubmit sampleEnv ((initialApp None)\<lparr>formData := validForm\<rparr>))
     = Some (stringifyUsers [newUser sampleEnv validForm])
   \<and> users (handleSubmit sampleEnv ((initialApp None)\<lparr>formData := weakForm\<rparr>)) = []
   \<and> storage (handleSubmit sampleEnv ((initialApp None)\<lparr>formData := weakForm\<rparr>)) = None"
  using handleSubmit_appends_iff_valid[of sampleEnv "(initialApp None)\<lparr>formData := validForm\<rparr>"]
    handleSubmit_appends_iff_valid[of sampleEnv "(initialApp None)\<lparr>formData := weakForm\<rparr>"]
    validForm_passes weakForm_fails
  by (simp add: allFieldsPass_iff initialApp_def del: validateField.simps)

text \<open>
  C10. The record of a successful submission holds the full name, the email, the phone
  and the date of birth exactly as they were typed, in the list and in the stored text:
  the stored text parses to an array whose last object has these strings as its
  properties, and a start from it gives a list whose last record has them. A name with
  blanks around it that passes the validation keeps its blanks.
\<close>

theorem handleSubmit_stores_raw_input:
  assumes "\<forall>key. validateField e (formData st) key (fieldValue (formData st) key) = None"
  shows "u_fullName (last (users (handleSubmit e st))) = fullName (formData st)
    \<and> u_email (last (users (handleSubmit e st))) = email (formData st)
    \<and> u_phone (last (users (handleSubmit e st))) = phone (formData st)
    \<and> u_dateOfBirth (last (users (handleSubmit e st))) = dateOfBirth (formData st)
    \<and> storage (handleSubmit e st) = Some (stringifyUsers (users (handleSubmit e st)))
    \<and> (\<exists>st'. startup (storage (handleSubmit e st)) = Started st'
          \<and> users st' \<noteq> []
          \<and> u_fullName (last (users st')) = fullName (formData st)
          \<and> u_email (last (users st')) = email (formData st)
          \<and> u_phone (last (users st')) = phone (formData st)
          \<and> u_dateOfBirth (last (users st')) = dateOfBirth (formData st))
    \<and> (\<exists>js. JSON_parse (the (storage (handleSubmit e st))) = Some (JArr js)
          \<and> js \<noteq> []
          \<and> last js = JObj
               [(lit ''id'', JStr (toString (nowMs e))),
                (lit ''fullName'', JStr (fullName (formData st))),
                (lit ''email'', JStr (email (formData st))),
                (lit ''phone'', JStr (phone (formData st))),
                (lit ''dateOfBirth'', JStr (dateOfBirth (formData st))),
                (lit ''registeredAt'', JStr (nowISO e))])"
proof -
  let ?u = "newUser e (formData st)"
  let ?us = "users st @ [?u]"
  from assms have "allFieldsPass e (formData st)" by (simp add: allFieldsPass_iff)
  note hs = handleSubmit_pass[OF this]
  have mem: "users (handleSubmit e st) = ?us" "storage (handleSubmit e st) = Some (stringifyUsers ?us)"
    by (simp_all add: hs)
  have reload: "startup (Some (stringifyUsers ?us))
      = Started ((initialApp (Some (stringifyUsers ?us)))\<lparr>users := ?us\<rparr>)"
    by (rule startup_stringifyUsers)
  have enc: "encodeUser ?u = JObj
               [(lit ''id'', JStr (toString (nowMs e))),
                (lit ''fullName'', JStr (fullName (formData st))),
                (lit ''email'', JStr (email (formData st))),
                (lit ''phone'', JStr (phone (formData st))),
                (lit ''dateOfBirth'', JStr (dateOfBirth (formData st))),
                (lit ''registeredAt'', JStr (nowISO e))]"
    by (simp add: encodeUser_def userKeys_def newUser_def)
  have parse: "JSON_parse (stringifyUsers ?us) = Some (JArr (map encodeUser ?us))"
    by (rule JSON_parse_stringifyUsers)
  have lastjs: "map encodeUser ?us \<noteq> []" "last (map encodeUser ?us) = encodeUser ?u"
    by simp_all
  have fields: "u_fullName ?u = fullName (formData st)" "u_email ?u = email (formData st)"
    "u_phone ?u = phone (formData st)" "u_dateOfBirth ?u = dateOfBirth (formData st)"
    by (simp_all add: newUser_def)
  have A: "\<exists>st'. startup (storage (handleSubmit e st)) = Started st'
          \<and> users st' \<noteq> []
          \<and> u_fullName (last (users st')) = fullName (formData st)
          \<and> u_email (last (users st')) = email (formData st)
          \<and> u_phone (last (users st')) = phone (formData st)
          \<and> u_dateOfBirth (last (users st')) = dateOfBirth (formData st)"
    unfolding mem reload using fields by simp
  have B: "\<exists>js. JSON_parse (the (storage (handleSubmit e st))) = Some (JArr js)
          \<and> js \<noteq> []
          \<and> last js = JObj
               [(lit ''id'', JStr (toString (nowMs e))),
                (lit ''fullName'', JStr (fullName (formData st))),
                (lit ''email'', JStr (email (formData st))),
                (lit ''phone'', JStr (phone (formData st))),
                (lit ''dateOfBirth'', JStr (dateOfBirth (formData st))),
                (lit ''registeredAt'', JStr (nowISO e))]"
    unfolding mem option.sel parse using lastjs enc by (intro exI[of _ "map encodeUser ?us"]) simp
  from fields A B show ?thesis unfolding mem by simp
qed

theorem handleSubmit_stores_raw_input_witness:
  "(\<forall>key. validateField sampleEnv paddedForm key (fieldValue paddedForm key) = None)
   \<and> u_fullName (last (users (handleSubmit sampleEnv ((initialApp None)\<lparr>formData := paddedForm\<rparr>))))
     = lit '' Jo ''
   \<and> (\<exists>st'. startup (storage (handleSubmit sampleEnv ((initialApp None)\<lparr>formData := paddedForm\<rparr>)))
          = Started st'
        \<and> users st' \<noteq> [] \<and> u_fullName (last (users st')) = lit '' Jo '')
   \<and> (\<exists>js. JSON_parse (the (storage (handleSubmit sampleEnv
            ((initialApp None)\<lparr>formData := paddedForm\<rparr>)))) = Some (JArr js)
        \<and> js \<noteq> []
        \<and> last js = JObj
             [(lit ''id'', JStr (toString (nowMs sampleEnv))),
              (lit ''fullName'', JStr (lit '' Jo '')),
              (lit ''email'', JStr (lit ''a@b.com'')),
              (lit ''phone'', JStr (lit ''1234567890'')),
              (lit ''dateOfBirth'', JStr (lit ''2000-01-01'')),
              (lit ''registeredAt'', JStr (nowISO sampleEnv))])
   \<and> trim (lit '' Jo '') = lit ''Jo''"
proof -
  have p: "\<forall>key. validateField sampleEnv paddedForm key (fieldValue paddedForm key) = None"
    using paddedForm_passes unfolding allFieldsPass_iff .
  have t: "trim (lit '' Jo '') = lit ''Jo''" by (simp add: trim_def char_defs)
  have f: "formData ((initialApp None)\<lparr>formData := paddedForm\<rparr>) = paddedForm" by simp
  have v: "fullName paddedForm = lit '' Jo ''" "email paddedForm = lit ''a@b.com''"
    "phone paddedForm = lit ''1234567890''" "dateOfBirth paddedForm = lit ''2000-01-01''"
    by (simp_all add: paddedForm_def validForm_def)
  from handleSubmit_stores_raw_input[of sampleEnv "(initialApp None)\<lparr>formData := paddedForm\<rparr>",
      unfolded f, OF p]
  show ?thesis unfolding v using p t by blast
qed

text \<open>
  C8. After a successful submission, a start from the stored text gives the list that
  was stored, and the new record is in it.
\<close>

theorem startup_after_handleSubmit:
  assumes "\<forall>key. validateField e (formData st) key (fieldValue (formData st) key) = None"
  shows "startup (storage (handleSubmit e st))
      = Started ((initialApp (storage (handleSubmit e st)))\<lparr>users := users st @ [newUser e (formData st)]\<rparr>)
    \<and> newUser e (formData st) \<in> set (users st @ [newUser e (formData st)])"
proof -
  from assms have "allFieldsPass e (formData st)" by (simp add: allFieldsPass_iff)
  from handleSubmit_pass[OF this] show ?thesis by (simp add: startup_stringifyUsers)
qed

theorem startup_after_handleSubmit_witness:
  "(\<forall>key. validateField sampleEnv validForm key (fieldValue validForm key) = None)
   \<and> startup (storage (handleSubmit sampleEnv ((initialApp None)\<lparr>formData := validForm\<rparr>)))
     = Started ((initialApp (Some (stringifyUsers [newUser sampleEnv validForm])))
         \<lparr>users := [newUser sampleEnv validForm]\<rparr>)"
proof -
  have p: "\<forall>key. validateField sampleEnv validForm key (fieldValue validForm key) = None"
    using validForm_passes unfolding allFieldsPass_iff .
  have s: "storage (handleSubmit sampleEnv ((initialApp None)\<lparr>formData := validForm\<rparr>))
      = Some (stringifyUsers [newUser sampleEnv validForm])"
    using handleSubmit_pass[of sampleEnv "(initialApp None)\<lparr>formData := validForm\<rparr>"]
      validForm_passes
    by (simp add: initialApp_def)
  show ?thesis
    using startup_after_handleSubmit[of sampleEnv "(initialApp None)\<lparr>formData := validForm\<rparr>"]
      p s
    by (simp add: initialApp_def del: validateField.simps)
qed


text \<open>
  C9. The record of a successful submission has no password in it: its full name, email,
  phone and date of birth are those of the form whatever the two password fields hold,
  two submissions that differ in the password fields only leave the same list and the same
  stored text, and no object of the stored text has a property \<open>password\<close> or
  \<open>confirmPassword\<close>.
\<close>

theorem handleSubmit_ignores_password:
  assumes "\<forall>key. validateField e (formData st) key (fieldValue (formData st) key) = None"
    and "\<forall>key. validateField e' (formData st') key (fieldValue (formData st') key) = None"
    and "fullName (formData st) = fullName (formData st')"
    and "email (formData st) = email (formData st')"
    and "phone (formData st) = phone (formData st')"
    and "dateOfBirth (formData st) = dateOfBirth (formData st')"
  shows "u_fullName (last (users (handleSubmit e st))) = u_fullName (last (users (handleSubmit e' st')))
    \<and> u_email (last (users (handleSubmit e st))) = u_email (last (users (handleSubmit e' st')))
    \<and> u_phone (last (users (handleSubmit e st))) = u_phone (last (users (handleSubmit e' st')))
    \<and> u_dateOfBirth (last (users (handleSubmit e st)))
        = u_dateOfBirth (last (users (handleSubmit e' st')))
    \<and> (e = e' \<and> users st = users st' \<longrightarrow>
         users (handleSubmit e st) = users (handleSubmit e' st')
         \<and> storage (handleSubmit e st) = storage (handleSubmit e' st'))
    \<and> (\<exists>js. JSON_parse (the (storage (handleSubmit e st))) = Some (JArr js)
         \<and> (\<forall>j \<in> set js. \<exists>ms. j = JObj ms \<and> lit ''password'' \<notin> fst ` set ms
               \<and> lit ''confirmPassword'' \<notin> fst ` set ms))"
proof -
  from assms(1) have 1: "allFieldsPass e (formData st)" by (simp add: allFieldsPass_iff)
  from assms(2) have 2: "allFieldsPass e' (formData st')" by (simp add: allFieldsPass_iff)
  have keys: "lit ''password'' \<notin> set userKeys" "lit ''confirmPassword'' \<notin> set userKeys"
    by (simp_all add: userKeys_def lit_def)
  have obj: "\<exists>ms. encodeUser u = JObj ms \<and> lit ''password'' \<notin> fst ` set ms
      \<and> lit ''confirmPassword'' \<notin> fst ` set ms" for u
  proof -
    have "fst ` set (zip userKeys (map JStr [u_id u, u_fullName u, u_email u, u_phone u,
        u_dateOfBirth u, u_registeredAt u])) = set userKeys"
      by (simp add: userKeys_def)
    with keys show ?thesis by (simp only: encodeUser_def) blast
  qed
  have parse: "\<exists>js. JSON_parse (stringifyUsers us) = Some (JArr js)
      \<and> (\<forall>j \<in> set js. \<exists>ms. j = JObj ms \<and> lit ''password'' \<notin> fst ` set ms
            \<and> lit ''confirmPassword'' \<notin> fst ` set ms)" for us
    using obj by (auto simp: JSON_parse_stringifyUsers)
  have A: "users (handleSubmit e st) = users st @ [newUser e (formData st)]"
    "storage (handleSubmit e st) = Some (stringifyUsers (users st @ [newUser e (formData st)]))"
    by (simp_all add: handleSubmit_pass[OF 1])
  have B: "users (handleSubmit e' st') = users st' @ [newUser e' (formData st')]"
    "storage (handleSubmit e' st') = Some (stringifyUsers (users st' @ [newUser e' (formData st')]))"
    by (simp_all add: handleSubmit_pass[OF 2])
  show ?thesis
    unfolding A B
    using parse[of "users st @ [newUser e (formData st)]"] assms(3-6)
    by (simp add: newUser_def)
qed

theorem handleSubmit_ignores_password_witness:
  "(\<forall>key. validateField sampleEnv validForm key (fieldValue validForm key) = None)
   \<and> (\<forall>key. validateField sampleEnv otherForm key (fieldValue otherForm key) = None)
   \<and> password validForm \<noteq> password otherForm
   \<and> storage (handleSubmit sampleEnv ((initialApp None)\<lparr>formData := validForm\<rparr>))
     = storage (handleSubmit sampleEnv ((initialApp None)\<lparr>formData := otherForm\<rparr>))"
proof -
  have p: "\<forall>key. validateField sampleEnv validForm key (fieldValue validForm key) = None"
    using validForm_passes unfolding allFieldsPass_iff .
  have q: "\<forall>key. validateField sampleEnv otherForm key (fieldValue otherForm key) = None"
    using otherForm_passes unfolding allFieldsPass_iff .
  have d: "password validForm \<noteq> password otherForm"
    by (simp add: validForm_def otherForm_def lit_def)
  show ?thesis
    using handleSubmit_ignores_password[of sampleEnv "(initialApp None)\<lparr>formData := validForm\<rparr>"
        sampleEnv "(initialApp None)\<lparr>formData := otherForm\<rparr>"] p q d
    by (simp add: otherForm_def initialApp_def del: validateField.simps)
qed

section \<open>Removing a user\<close>

text \<open>
  C7. Removing an identifier twice leaves the state, the list and the stored text, that
  removing it once leaves; removing an identifier that no record has leaves the list as it
  was.
\<close>

theorem handleDeleteUser_idempotent:
  "handleDeleteUser ident (handleDeleteUser ident st) = handleDeleteUser ident st
   \<and> (ident \<notin> u_id ` set (users st) \<longrightarrow> users (handleDeleteUser ident st) = users st)"
proof -
  have "ident \<notin> u_id ` set (users st) \<Longrightarrow> filter (\<lambda>user. u_id user \<noteq> ident) (users st) = users st"
    by (induction "users st") (auto simp: filter_id_conv)
  then show ?thesis by (simp add: handleDeleteUser_def Let_def)
qed

theorem handleDeleteUser_idempotent_witness:
  "users (handleDeleteUser (lit ''7'') ((initialApp None)\<lparr>users := [newUser sampleEnv validForm]\<rparr>))
     = [newUser sampleEnv validForm]
   \<and> handleDeleteUser (u_id (newUser sampleEnv validForm))
       (handleDeleteUser (u_id (newUser sampleEnv validForm))
         ((initialApp None)\<lparr>users := [newUser sampleEnv validForm]\<rparr>))
     = (initialApp (Some (lit ''[]'')))"
proof -
  have a: "lit ''7'' \<noteq> u_id (newUser sampleEnv validForm)"
    by (simp add: newUser_def sampleEnv_def lit_def toString.simps)
  have b: "handleDeleteUser (u_id (newUser sampleEnv validForm))
      ((initialApp None)\<lparr>users := [newUser sampleEnv validForm]\<rparr>) = initialApp (Some (lit ''[]''))"
    by (simp add: handleDeleteUser_def initialApp_def stringifyUsers_def lit_def)
  show ?thesis
    using handleDeleteUser_idempotent[of "lit ''7''" "(initialApp None)\<lparr>users := [newUser sampleEnv validForm]\<rparr>"]
      handleDeleteUser_idempotent[of "u_id (newUser sampleEnv validForm)"
        "(initialApp None)\<lparr>users := [newUser sampleEnv validForm]\<rparr>"] a b
    by (simp add: initialApp_def)
qed

section \<open>Starting\<close>

text \<open>
  C1, as the program has it. When the slot is absent or holds the empty string, the list
  at the start is empty and nothing is thrown. When the slot holds a text that is not
  JSON, \<open>JSON.parse\<close> throws its \<open>SyntaxError\<close> out of the effect, and no list is set.
\<close>

theorem startup_absent_or_unparsable:
  "(slot = None \<or> slot = Some [] \<longrightarrow>
      startup slot = Started (initialApp slot) \<and> users (initialApp slot) = [])
   \<and> (s \<noteq> [] \<and> JSON_parse s = None \<longrightarrow> startup (Some s) = SyntaxError)"
  by (auto simp: startup_def loadUsers_def initialApp_def)

lemma JSON_parse_garbage:
  "JSON_parse (lit ''{'') = None" "JSON_parse (lit ''not json'') = None"
  by (simp_all add: JSON_parse_def lit_def skipWs_def isJsonWs_def parseValue.simps
    parseNumber_def isDigit_def)

theorem startup_absent_or_unparsable_witness:
  "startup None = Started (initialApp None) \<and> users (initialApp None) = []
   \<and> lit ''not json'' \<noteq> [] \<and> JSON_parse (lit ''not json'') = None
   \<and> startup (Some (lit ''not json'')) = SyntaxError"
  using startup_absent_or_unparsable[of None "lit ''not json''"] JSON_parse_garbage(2)
  by (simp add: lit_def)

text \<open>
  The claim C1 as it was stated fails: the text \<open>{\<close> is not JSON, and the start from it
  ends in the \<open>SyntaxError\<close> and not in an empty list.
\<close>

theorem startup_unparsable_counterexample:
  "JSON_parse (lit ''{'') = None \<and> startup (Some (lit ''{'')) = SyntaxError"
  using JSON_parse_garbage(1) by (simp add: startup_def loadUsers_def initialApp_def lit_def)

end
